theory Spec2Isabelle
  imports Complex_Main "HOL-Library.Word"
begin

unbundle bit_operations_syntax

section \<open>Data model\<close>

text \<open>
  The programs work on numpy arrays. An element of an \<^verbatim>\<open>np.int8\<close> array is an
  \<open>8 word\<close> and an element of an \<^verbatim>\<open>np.int32\<close> array a \<open>32 word\<close>, both read
  as two's complement by \<open>sint\<close>; Python's own integers (\<^verbatim>\<open>int(x)\<close>) are \<open>int\<close>.
  A one-dimensional array is a list. A two-dimensional array is its shape together with
  its elements in row-major order, which is how numpy stores it.
\<close>

type_synonym int8 = "8 word"
type_synonym int32 = "32 word"

record matrix =
  nrows :: nat
  ncols :: nat
  elems :: "int8 list"

text \<open>\<^verbatim>\<open>w[j, i]\<close> for indices inside the shape.\<close>

definition item :: "matrix \<Rightarrow> nat \<Rightarrow> nat \<Rightarrow> int8" where
  "item w j i = elems w ! (j * ncols w + i)"

text \<open>
  The exceptions the modelled code raises. Python raises \<^verbatim>\<open>ValueError\<close> from
  \<^verbatim>\<open>int(s, 16)\<close> on a malformed literal, from \<^verbatim>\<open>reshape\<close> on a wrong element
  count and from \<^verbatim>\<open>np.max\<close> on an empty array; the constructors keep the three apart.
  \<open>Outside_model\<close> is no exception of Python: it marks the two places where numpy's
  result depends on the platform or the numpy version (an integer list that does not fit
  \<^verbatim>\<open>int64\<close>, a float cast to \<^verbatim>\<open>int8\<close> out of range), which the model does not
  describe; no theorem below states that a computation ends there.
\<close>

datatype error =
    IndexError
  | ValueError_invalid_literal
  | ValueError_cannot_reshape
  | ValueError_zero_size_array
  | Outside_model

section \<open>Fixed-point inference (verify\_test.py, inference\_int8)\<close>

text \<open>
  Storing a Python integer into an \<^verbatim>\<open>np.int32\<close> slot keeps its low 32 bits
  (\<open>word_of_int\<close>); \<^verbatim>\<open>z1[i] += p\<close> adds in 32 bits.
\<close>

definition seed_bias_hw :: "int8 \<Rightarrow> int32" where
  "seed_bias_hw b = word_of_int (sint b * 256)"

definition mac :: "int32 \<Rightarrow> int8 \<Rightarrow> int8 \<Rightarrow> int32" where
  "mac z x w = z + word_of_int (sint x * sint w)"

text \<open>Lines 71 to 75: \<^verbatim>\<open>z1 = np.zeros(32); for i in range(32): z1[i] = int(b1[i]) * 256\<close>.\<close>

definition z1_bias :: "int8 list \<Rightarrow> int32 list" where
  "z1_bias b1 = fold (\<lambda>i z. z[i := seed_bias_hw (b1 ! i)]) [0..<32] (replicate 32 0)"

text \<open>Lines 78 to 80: the two nested loops of the matrix multiplication, on the array \<open>z\<close>.\<close>

definition matmul_loop ::
  "nat \<Rightarrow> nat \<Rightarrow> int8 list \<Rightarrow> matrix \<Rightarrow> int32 list \<Rightarrow> int32 list" where
  "matmul_loop n_out n_in x w z0 =
     fold (\<lambda>i z. fold (\<lambda>j z'. z'[i := mac (z' ! i) (x ! j) (item w j i)]) [0..<n_in] z)
       [0..<n_out] z0"

definition layer1_acc :: "int8 list \<Rightarrow> matrix \<Rightarrow> int8 list \<Rightarrow> int32 list" where
  "layer1_acc img w1 b1 = matmul_loop 32 784 img w1 (z1_bias b1)"

text \<open>
  Lines 85 to 90, one neuron: the comparisons are signed, \<^verbatim>\<open>>> 8\<close> on an
  \<^verbatim>\<open>np.int32\<close> is the arithmetic shift, and the store into the \<^verbatim>\<open>np.int8\<close>
  array keeps the low 8 bits.
\<close>

definition relu_requant :: "int32 \<Rightarrow> int8" where
  "relu_requant z =
     (if z <s 0 then 0
      else if 32767 <s z then 127
      else ucast (signed_drop_bit 8 z))"

definition layer1_act :: "int32 list \<Rightarrow> int8 list" where
  "layer1_act z1 = fold (\<lambda>i a. a[i := relu_requant (z1 ! i)]) [0..<32] (replicate 32 0)"

text \<open>Lines 93 to 102: layer 2, seeded with the bias unscaled.\<close>

definition z2_bias :: "int8 list \<Rightarrow> int32 list" where
  "z2_bias b2 = fold (\<lambda>i z. z[i := word_of_int (sint (b2 ! i))]) [0..<10] (replicate 10 0)"

definition layer2_acc :: "int8 list \<Rightarrow> matrix \<Rightarrow> int8 list \<Rightarrow> int32 list" where
  "layer2_acc a1 w2 b2 = matmul_loop 10 32 a1 w2 (z2_bias b2)"

text \<open>\<^verbatim>\<open>np.argmax\<close>: the index of the first occurrence of the largest element.\<close>

fun argmax_from :: "nat \<Rightarrow> int32 \<Rightarrow> nat \<Rightarrow> int32 list \<Rightarrow> nat" where
  "argmax_from best bv k [] = best"
| "argmax_from best bv k (v # vs) =
     (if bv <s v then argmax_from k v (Suc k) vs else argmax_from best bv (Suc k) vs)"

definition argmax :: "int32 list \<Rightarrow> nat" where
  "argmax zs = (case zs of [] \<Rightarrow> 0 | v # vs \<Rightarrow> argmax_from 0 v 1 vs)"

text \<open>
  The function reads \<^verbatim>\<open>b1[0..31]\<close>, \<^verbatim>\<open>img[0..783]\<close>, \<^verbatim>\<open>w1[0..783, 0..31]\<close>,
  \<^verbatim>\<open>b2[0..9]\<close> and \<^verbatim>\<open>w2[0..31, 0..9]\<close>; an array too small for one of these reads
  raises \<^verbatim>\<open>IndexError\<close>, and nothing else in the function can fail.
\<close>

definition shapes_ok :: "int8 list \<Rightarrow> matrix \<Rightarrow> int8 list \<Rightarrow> matrix \<Rightarrow> int8 list \<Rightarrow> bool" where
  "shapes_ok img w1 b1 w2 b2 \<longleftrightarrow>
     32 \<le> length b1 \<and> 784 \<le> length img \<and> 784 \<le> nrows w1 \<and> 32 \<le> ncols w1 \<and>
     10 \<le> length b2 \<and> 32 \<le> nrows w2 \<and> 10 \<le> ncols w2"

definition inference_int8 ::
  "int8 list \<Rightarrow> matrix \<Rightarrow> int8 list \<Rightarrow> matrix \<Rightarrow> int8 list \<Rightarrow> error + (nat \<times> int32 list)" where
  "inference_int8 img w1 b1 w2 b2 =
     (if shapes_ok img w1 b1 w2 b2 then
        let z1 = layer1_acc img w1 b1;
            a1 = layer1_act z1;
            z2 = layer2_acc a1 w2 b2
        in Inr (argmax z2, z2)
      else Inl IndexError)"

section \<open>The bias term of the quantised test path (train\_mnist.py, test\_quantized\_model)\<close>

text \<open>
  Line 109: \<^verbatim>\<open>q_params['b1'].astype(np.int32) * 127\<close>, the term added to the layer-1
  dot product; \<open>scast\<close> is the sign-extending \<^verbatim>\<open>astype(np.int32)\<close>.
\<close>

definition seed_bias_test :: "int8 \<Rightarrow> int32" where
  "seed_bias_test b = scast b * 127"

definition bias_term_test :: "int8 list \<Rightarrow> int32 list" where
  "bias_term_test b1 = map seed_bias_test b1"

section \<open>The hex files (train\_mnist.py, export\_weights\_hex; verify\_test.py, load\_weights)\<close>

text \<open>
  A file is modelled by its content, the text Python reads from it or writes to it: a list
  of characters with code points below 256. The files are opened in text mode, so on
  reading \<^verbatim>\<open>\\r\\n\<close> and \<^verbatim>\<open>\\r\<close> become \<^verbatim>\<open>\\n\<close>; \<^verbatim>\<open>readlines\<close> cuts
  the text after every \<^verbatim>\<open>\\n\<close> and keeps it at the end of the line.
\<close>

definition LF :: char where "LF = CHR 0x0A"
definition CR :: char where "CR = CHR 0x0D"

fun universal_newlines :: "string \<Rightarrow> string" where
  "universal_newlines [] = []"
| "universal_newlines [c] = [if c = CR then LF else c]"
| "universal_newlines (c # d # cs) =
     (if c = CR \<and> d = LF then LF # universal_newlines cs
      else if c = CR then LF # universal_newlines (d # cs)
      else c # universal_newlines (d # cs))"

fun split_lines :: "string \<Rightarrow> string \<Rightarrow> string list" where
  "split_lines cur [] = (if cur = [] then [] else [cur])"
| "split_lines cur (c # cs) =
     (if c = LF then (cur @ [c]) # split_lines [] cs else split_lines (cur @ [c]) cs)"

definition readlines :: "string \<Rightarrow> string list" where
  "readlines text = split_lines [] (universal_newlines text)"

text \<open>
  \<^verbatim>\<open>str.strip()\<close> removes the whitespace of Python at both ends: the code points 9 to
  13, 28 to 32, 133 and 160 among those below 256.
\<close>

definition is_space :: "char \<Rightarrow> bool" where
  "is_space c = (let n = (of_char c :: nat) in
     (9 \<le> n \<and> n \<le> 13) \<or> (28 \<le> n \<and> n \<le> 32) \<or> n = 133 \<or> n = 160)"

definition strip :: "string \<Rightarrow> string" where
  "strip s = rev (dropWhile is_space (rev (dropWhile is_space s)))"

text \<open>
  \<^verbatim>\<open>int(s, 16)\<close>, \<open>None\<close> for \<^verbatim>\<open>ValueError\<close>: whitespace at both ends is ignored,
  then come an optional sign, an optional prefix \<^verbatim>\<open>0x\<close> or \<^verbatim>\<open>0X\<close> (which one
  underscore may follow) and at least one hexadecimal digit of either case, with single
  underscores allowed between digits. The literal may have any number of digits.
\<close>

definition hex_digit_value :: "char \<Rightarrow> nat option" where
  "hex_digit_value c = (let n = (of_char c :: nat) in
     if 48 \<le> n \<and> n \<le> 57 then Some (n - 48)
     else if 97 \<le> n \<and> n \<le> 102 then Some (n - 87)
     else if 65 \<le> n \<and> n \<le> 70 then Some (n - 55)
     else None)"

fun scan_digits :: "nat \<Rightarrow> string \<Rightarrow> nat option" where
  "scan_digits acc [] = None"
| "scan_digits acc [c] =
     (case hex_digit_value c of None \<Rightarrow> None | Some d \<Rightarrow> Some (16 * acc + d))"
| "scan_digits acc (c # e # es) =
     (case hex_digit_value c of
        None \<Rightarrow> None
      | Some d \<Rightarrow>
          if e = CHR ''_'' then scan_digits (16 * acc + d) es
          else scan_digits (16 * acc + d) (e # es))"

fun skip_prefix :: "string \<Rightarrow> string" where
  "skip_prefix (c # d # cs) =
     (if c = CHR ''0'' \<and> (d = CHR ''x'' \<or> d = CHR ''X'')
      then (case cs of [] \<Rightarrow> [] | e # es \<Rightarrow> if e = CHR ''_'' then es else cs)
      else c # d # cs)"
| "skip_prefix cs = cs"

definition py_int16 :: "string \<Rightarrow> int option" where
  "py_int16 s =
     (case strip s of
        [] \<Rightarrow> None
      | c # cs \<Rightarrow>
          if c = CHR ''-'' then map_option (\<lambda>n. - int n) (scan_digits 0 (skip_prefix cs))
          else if c = CHR ''+'' then map_option int (scan_digits 0 (skip_prefix cs))
          else map_option int (scan_digits 0 (skip_prefix (c # cs))))"

text \<open>Lines 31 and 32 of verify\_test.py: \<^verbatim>\<open>if val > 127: val = val - 256\<close>.\<close>

definition to_signed :: "int \<Rightarrow> int" where
  "to_signed val = (if val > 127 then val - 256 else val)"

text \<open>
  The loop of \<^verbatim>\<open>load_weights\<close> over the lines of one file (lines 28 to 33), and the
  list comprehension of \<^verbatim>\<open>load_test_data\<close> (line 12), which does not adjust the
  sign. The first malformed line raises.
\<close>

fun decode_lines :: "string list \<Rightarrow> error + int list" where
  "decode_lines [] = Inr []"
| "decode_lines (line # ls) =
     (case py_int16 (strip line) of
        None \<Rightarrow> Inl ValueError_invalid_literal
      | Some val \<Rightarrow>
          (case decode_lines ls of Inl e \<Rightarrow> Inl e | Inr vs \<Rightarrow> Inr (to_signed val # vs)))"

fun parse_lines :: "string list \<Rightarrow> error + int list" where
  "parse_lines [] = Inr []"
| "parse_lines (line # ls) =
     (case py_int16 (strip line) of
        None \<Rightarrow> Inl ValueError_invalid_literal
      | Some val \<Rightarrow>
          (case parse_lines ls of Inl e \<Rightarrow> Inl e | Inr vs \<Rightarrow> Inr (val # vs)))"

text \<open>
  \<^verbatim>\<open>np.array(vals).astype(np.int8)\<close>: a list of integers that fit \<^verbatim>\<open>int64\<close> becomes
  an \<^verbatim>\<open>int64\<close> array, and the cast keeps the low 8 bits of each element.
\<close>

definition cast_int8 :: "int \<Rightarrow> int8" where
  "cast_int8 v = word_of_int v"

definition fits_int64 :: "int \<Rightarrow> bool" where
  "fits_int64 v \<longleftrightarrow> - (2 ^ 63) \<le> v \<and> v < 2 ^ 63"

definition astype_int8 :: "int list \<Rightarrow> error + int8 list" where
  "astype_int8 vs = (if list_all fits_int64 vs then Inr (map cast_int8 vs) else Inl Outside_model)"

text \<open>
  A bias file (lines 37 to 44 and 57 to 64): the values are cast as they come, whatever
  their number. A weight file (lines 26 to 34 and 47 to 54): \<^verbatim>\<open>reshape(r, c)\<close> raises
  unless there are \<open>r * c\<close> values. The image file (lines 11 to 15) is read the same
  way, without the sign adjustment; the labels file of \<^verbatim>\<open>load_test_data\<close> holds
  decimal numbers and is not modelled.
\<close>

definition load_vector :: "string \<Rightarrow> error + int8 list" where
  "load_vector text =
     (case decode_lines (readlines text) of Inl e \<Rightarrow> Inl e | Inr vs \<Rightarrow> astype_int8 vs)"

definition reshape_astype :: "nat \<Rightarrow> nat \<Rightarrow> int list \<Rightarrow> error + matrix" where
  "reshape_astype r c vs =
     (if length vs \<noteq> r * c then Inl ValueError_cannot_reshape
      else (case astype_int8 vs of
              Inl e \<Rightarrow> Inl e
            | Inr ws \<Rightarrow> Inr \<lparr>nrows = r, ncols = c, elems = ws\<rparr>))"

definition load_matrix :: "nat \<Rightarrow> nat \<Rightarrow> string \<Rightarrow> error + matrix" where
  "load_matrix r c text =
     (case decode_lines (readlines text) of Inl e \<Rightarrow> Inl e | Inr vs \<Rightarrow> reshape_astype r c vs)"

definition load_test_imgs :: "string \<Rightarrow> error + matrix" where
  "load_test_imgs text =
     (case parse_lines (readlines text) of Inl e \<Rightarrow> Inl e | Inr vs \<Rightarrow> reshape_astype 20 784 vs)"

record hex_files =
  w1_hex :: string
  b1_hex :: string
  w2_hex :: string
  b2_hex :: string

definition load_weights :: "hex_files \<Rightarrow> error + (matrix \<times> int8 list \<times> matrix \<times> int8 list)" where
  "load_weights fs =
     (case load_matrix 784 32 (w1_hex fs) of Inl e \<Rightarrow> Inl e | Inr w1 \<Rightarrow>
      case load_vector (b1_hex fs) of Inl e \<Rightarrow> Inl e | Inr b1 \<Rightarrow>
      case load_matrix 32 10 (w2_hex fs) of Inl e \<Rightarrow> Inl e | Inr w2 \<Rightarrow>
      case load_vector (b2_hex fs) of Inl e \<Rightarrow> Inl e | Inr b2 \<Rightarrow>
      Inr (w1, b1, w2, b2))"

text \<open>
  Writing a file (train\_mnist.py, lines 138, 139, 145 and 146): \<^verbatim>\<open>val = int(w) & 0xFF\<close>
  lies between 0 and 255, so \<^verbatim>\<open>f'{val:02x}'\<close> is its two lower-case hexadecimal
  digits; \<open>format_02x\<close> is that format on this range only.
\<close>

definition hex_char :: "nat \<Rightarrow> char" where
  "hex_char d = ''0123456789abcdef'' ! d"

definition format_02x :: "int \<Rightarrow> string" where
  "format_02x val = [hex_char (nat (val div 16)), hex_char (nat (val mod 16))]"

definition encode_byte :: "int8 \<Rightarrow> string" where
  "encode_byte w = format_02x (sint w AND 255) @ [LF]"

definition export_vector :: "int8 list \<Rightarrow> string" where
  "export_vector b = concat (map (\<lambda>i. encode_byte (b ! i)) [0..<length b])"

definition export_matrix :: "matrix \<Rightarrow> string" where
  "export_matrix w =
     concat (map (\<lambda>i. concat (map (\<lambda>j. encode_byte (item w i j)) [0..<ncols w])) [0..<nrows w])"

section \<open>Quantisation (train\_mnist.py, quantize\_weights)\<close>

text \<open>
  The weights are floating-point numbers. The model computes with real numbers instead, so
  it follows the code only where the floating-point operations are exact; this is the
  case for a tensor of zeros, where the only operations are \<open>\<bar>0\<bar>\<close>, \<open>max 0 0\<close>,
  \<open>0 * 1\<close> and the rounding of 0. A tensor is the list of its elements, whatever its
  shape, since the function works element by element.

  \<^verbatim>\<open>np.max\<close> raises \<^verbatim>\<open>ValueError\<close> on an array without elements. \<^verbatim>\<open>np.round\<close>
  rounds to the nearest integer and a half to the even neighbour. The cast of a rounded
  value to \<^verbatim>\<open>int8\<close> is defined between -128 and 127 only.
\<close>

fun np_max :: "real list \<Rightarrow> error + real" where
  "np_max [] = Inl ValueError_zero_size_array"
| "np_max (x # xs) = Inr (fold max xs x)"

definition np_round :: "real \<Rightarrow> int" where
  "np_round x =
     (let f = \<lfloor>x\<rfloor>; d = x - of_int f
      in if d < 1 / 2 then f else if 1 / 2 < d then f + 1 else if even f then f else f + 1)"

definition float_astype_int8 :: "int list \<Rightarrow> error + int8 list" where
  "float_astype_int8 rs =
     (if list_all (\<lambda>r. - 128 \<le> r \<and> r \<le> 127) rs then Inr (map cast_int8 rs)
      else Inl Outside_model)"

definition quantize_weights :: "real list \<Rightarrow> real \<Rightarrow> error + (int8 list \<times> real)" where
  "quantize_weights weights scale_factor =
     (case np_max (map abs weights) of
        Inl e \<Rightarrow> Inl e
      | Inr max_val \<Rightarrow>
          let scale = (if max_val > 0 then scale_factor / max_val else 1)
          in (case float_astype_int8 (map (\<lambda>w. np_round (w * scale)) weights) of
                Inl e \<Rightarrow> Inl e
              | Inr q_weights \<Rightarrow> Inr (q_weights, scale)))"

section \<open>Auxiliary functions of the proofs\<close>

text \<open>
  The value of one accumulator after \<open>n\<close> steps of the inner loop started at \<open>a\<close>, and
  the array \<^verbatim>\<open>np.zeros((r, c))\<close>.
\<close>

definition dot_from :: "int32 \<Rightarrow> nat \<Rightarrow> int8 list \<Rightarrow> matrix \<Rightarrow> nat \<Rightarrow> int32" where
  "dot_from a n x w i = fold (\<lambda>j acc. mac acc (x ! j) (item w j i)) [0..<n] a"

definition zeros_matrix :: "nat \<Rightarrow> nat \<Rightarrow> matrix" where
  "zeros_matrix r c = \<lparr>nrows = r, ncols = c, elems = replicate (r * c) 0\<rparr>"

section \<open>Signed arithmetic of the accumulators\<close>

lemma sint8_bounds: "- 128 \<le> sint (b::int8) \<and> sint b \<le> 127"
  using sint_ge [of b] sint_lt [of b] by simp

lemma sint32_of_int: "- 2147483648 \<le> k \<Longrightarrow> k \<le> 2147483647 \<Longrightarrow> sint (word_of_int k :: int32) = k"
  by (simp only: sint_sbintrunc') (simp add: signed_take_bit_int_eq_self)

lemma sint8_of_int: "- 128 \<le> k \<Longrightarrow> k \<le> 127 \<Longrightarrow> sint (word_of_int k :: int8) = k"
  by (simp only: sint_sbintrunc') (simp add: signed_take_bit_int_eq_self)

lemma ucast_32_8: "(ucast (w::int32) :: int8) = word_of_int (sint w)"
  by transfer (simp add: take_bit_signed_take_bit)

lemma sint_seed_hw: "sint (seed_bias_hw b) = 256 * sint b"
  unfolding seed_bias_hw_def using sint8_bounds [of b] by (subst sint32_of_int) auto

lemma seed_test_of_int: "seed_bias_test b = word_of_int (sint b * 127)"
  by (simp add: seed_bias_test_def)

lemma sint_seed_test: "sint (seed_bias_test b) = 127 * sint b"
  unfolding seed_test_of_int using sint8_bounds [of b] by (subst sint32_of_int) auto

lemma div256_range:
  assumes "0 \<le> (a::int)" and "a \<le> 32767"
  shows "0 \<le> a div 256" and "a div 256 \<le> 127"
proof -
  show "0 \<le> a div 256" using assms(1) by (simp add: pos_imp_zdiv_nonneg_iff)
  have "a div 256 \<le> 32767 div 256" using assms(2) by (intro zdiv_mono1) simp_all
  then show "a div 256 \<le> 127" by simp
qed

lemma relu_neg: "sint z < 0 \<Longrightarrow> relu_requant z = 0"
  by (simp add: relu_requant_def word_sless_alt)

lemma relu_high: "32767 < sint z \<Longrightarrow> relu_requant z = 127"
  by (simp add: relu_requant_def word_sless_alt)

lemma relu_mid:
  assumes "0 \<le> sint z" "sint z \<le> 32767"
  shows "sint (relu_requant z) = sint z div 256"
proof -
  have d: "0 \<le> sint z div 256" "sint z div 256 \<le> 127" using assms by (rule div256_range)+
  have "relu_requant z = ucast (signed_drop_bit 8 z)"
    using assms by (simp add: relu_requant_def word_sless_alt)
  also have "\<dots> = word_of_int (sint (signed_drop_bit 8 z))"
    by (rule ucast_32_8)
  also have "sint (signed_drop_bit 8 z) = sint z div 256"
    by (simp add: sint_signed_drop_bit_eq drop_bit_int_def)
  finally have r: "relu_requant z = word_of_int (sint z div 256)" .
  show ?thesis unfolding r using d by (intro sint8_of_int) auto
qed

lemma relu_range: "0 \<le> sint (relu_requant z) \<and> sint (relu_requant z) \<le> 127"
proof -
  consider "sint z < 0" | "32767 < sint z" | "0 \<le> sint z" "sint z \<le> 32767" by linarith
  then show ?thesis
  proof cases
    case 3
    then have "0 \<le> sint z div 256" "sint z div 256 \<le> 127" by (rule div256_range)+
    with 3 show ?thesis by (simp add: relu_mid)
  qed (simp_all add: relu_neg relu_high)
qed

lemma mac_sint:
  assumes "\<bar>sint a + sint x * sint w\<bar> \<le> 2147483647"
  shows "sint (mac a x w) = sint a + sint x * sint w"
proof -
  have "mac a x w = word_of_int (sint a) + word_of_int (sint x * sint w)"
    by (simp add: mac_def)
  then have "mac a x w = word_of_int (sint a + sint x * sint w)"
    by (simp only: of_int_add)
  then show ?thesis using assms by (simp only:) (subst sint32_of_int; linarith)
qed

lemma dot_from_Suc: "dot_from a (Suc n) x w i = mac (dot_from a n x w i) (x ! n) (item w n i)"
  by (simp add: dot_from_def)

lemma dot_from_0: "dot_from a 0 x w i = a"
  by (simp add: dot_from_def)

lemma dot_from_exact:
  assumes "\<bar>sint a\<bar> \<le> A" and "\<And>j. j < n \<Longrightarrow> \<bar>sint (x ! j) * sint (item w j i)\<bar> \<le> M"
    and "A + int n * M \<le> 2147483647"
  shows "sint (dot_from a n x w i) = sint a + (\<Sum>j<n. sint (x ! j) * sint (item w j i))
       \<and> \<bar>sint a + (\<Sum>j<n. sint (x ! j) * sint (item w j i))\<bar> \<le> A + int n * M"
  using assms(2,3)
proof (induction n)
  case 0
  then show ?case using assms(1) by (simp add: dot_from_0)
next
  case (Suc n)
  have M0: "0 \<le> M" using Suc.prems(1) [of n] by linarith
  have le: "A + int n * M \<le> 2147483647"
    using Suc.prems(2) M0 by (simp add: algebra_simps)
  have IH: "sint (dot_from a n x w i) = sint a + (\<Sum>j<n. sint (x ! j) * sint (item w j i))"
    "\<bar>sint a + (\<Sum>j<n. sint (x ! j) * sint (item w j i))\<bar> \<le> A + int n * M"
    using Suc.IH [OF _ le] Suc.prems(1) by auto
  have p: "\<bar>sint (x ! n) * sint (item w n i)\<bar> \<le> M" using Suc.prems(1) by simp
  have b: "\<bar>sint a + (\<Sum>j<Suc n. sint (x ! j) * sint (item w j i))\<bar> \<le> A + int (Suc n) * M"
    using IH(2) p by (simp add: algebra_simps)
  have "sint (dot_from a (Suc n) x w i) = sint (dot_from a n x w i) + sint (x ! n) * sint (item w n i)"
    unfolding dot_from_Suc
    by (rule mac_sint) (use IH b Suc.prems(2) in \<open>simp add: algebra_simps\<close>)
  then show ?case using IH(1) b by simp
qed

lemma prod8_bound: "\<bar>sint (x::int8) * sint (w::int8)\<bar> \<le> 16384"
proof -
  have "\<bar>sint x\<bar> \<le> 128" "\<bar>sint w\<bar> \<le> 128"
    using sint8_bounds [of x] sint8_bounds [of w] by auto
  then have "\<bar>sint x\<bar> * \<bar>sint w\<bar> \<le> 128 * 128"
    by (intro mult_mono) auto
  then show ?thesis by (simp add: abs_mult)
qed

lemma prod_act_bound:
  assumes "0 \<le> sint (x::int8)"
  shows "\<bar>sint x * sint (w::int8)\<bar> \<le> 16256"
proof -
  have "\<bar>sint x\<bar> \<le> 127" "\<bar>sint w\<bar> \<le> 128"
    using assms sint8_bounds [of x] sint8_bounds [of w] by auto
  then have "\<bar>sint x\<bar> * \<bar>sint w\<bar> \<le> 127 * 128"
    by (intro mult_mono) auto
  then show ?thesis by (simp add: abs_mult)
qed

section \<open>The loops as maps\<close>

lemma fold_update_gen:
  assumes "\<And>i z. i \<in> set is \<Longrightarrow> i < length z \<Longrightarrow> body i z = z[i := h i (z ! i)]"
    and "distinct is" and "\<forall>i\<in>set is. i < length z"
  shows "length (fold body is z) = length z \<and>
         (\<forall>k<length z. fold body is z ! k = (if k \<in> set is then h k (z ! k) else z ! k))"
  using assms
proof (induction "is" arbitrary: z)
  case Nil
  then show ?case by simp
next
  case (Cons i "is")
  have b: "body i z = z[i := h i (z ! i)]"
    using Cons.prems by simp
  have IH: "length (fold body is (body i z)) = length (body i z) \<and>
         (\<forall>k<length (body i z). fold body is (body i z) ! k =
            (if k \<in> set is then h k (body i z ! k) else body i z ! k))"
    using Cons.prems by (intro Cons.IH) (simp_all add: b)
  have ni: "i \<notin> set is" "i < length z" using Cons.prems by auto
  show ?case
    using IH ni by (auto simp: b nth_list_update)
qed

lemma inner_fold:
  "i < length z \<Longrightarrow>
   fold (\<lambda>j z'. z'[i := mac (z' ! i) (x ! j) (item w j i)]) js z =
   z[i := fold (\<lambda>j acc. mac acc (x ! j) (item w j i)) js (z ! i)]"
  by (induction js arbitrary: z) simp_all

lemma matmul_loop_eq:
  assumes "length z0 = n_out"
  shows "matmul_loop n_out n_in x w z0 = map (\<lambda>i. dot_from (z0 ! i) n_in x w i) [0..<n_out]"
proof -
  let ?body = "\<lambda>i z. fold (\<lambda>j z'. z'[i := mac (z' ! i) (x ! j) (item w j i)]) [0..<n_in] z"
  have "length (fold ?body [0..<n_out] z0) = length z0 \<and>
         (\<forall>k<length z0. fold ?body [0..<n_out] z0 ! k =
            (if k \<in> set [0..<n_out] then dot_from (z0 ! k) n_in x w k else z0 ! k))"
    by (rule fold_update_gen) (simp_all add: inner_fold dot_from_def assms)
  then show ?thesis
    unfolding matmul_loop_def using assms by (intro nth_equalityI) simp_all
qed

lemma fold_store_eq:
  "fold (\<lambda>i z. z[i := c i]) [0..<n] (replicate n d) = map c [0..<n]"
proof -
  have "length (fold (\<lambda>i z. z[i := c i]) [0..<n] (replicate n d)) = length (replicate n d) \<and>
         (\<forall>k<length (replicate n d). fold (\<lambda>i z. z[i := c i]) [0..<n] (replicate n d) ! k =
            (if k \<in> set [0..<n] then c k else replicate n d ! k))"
    by (rule fold_update_gen) simp_all
  then show ?thesis by (intro nth_equalityI) simp_all
qed

lemma z1_bias_eq: "z1_bias b1 = map (\<lambda>i. seed_bias_hw (b1 ! i)) [0..<32]"
  unfolding z1_bias_def by (rule fold_store_eq)

lemma z2_bias_eq: "z2_bias b2 = map (\<lambda>i. word_of_int (sint (b2 ! i))) [0..<10]"
  unfolding z2_bias_def by (rule fold_store_eq)

lemma layer1_act_eq: "layer1_act z1 = map (\<lambda>i. relu_requant (z1 ! i)) [0..<32]"
  unfolding layer1_act_def by (rule fold_store_eq)

lemma layer1_acc_nth:
  "i < 32 \<Longrightarrow> layer1_acc img w1 b1 ! i = dot_from (seed_bias_hw (b1 ! i)) 784 img w1 i"
  by (simp add: layer1_acc_def matmul_loop_eq z1_bias_eq del: upt_Suc)

lemma layer1_acc_length: "length (layer1_acc img w1 b1) = 32"
  by (simp add: layer1_acc_def matmul_loop_eq z1_bias_eq del: upt_Suc)

lemma layer2_acc_nth:
  "k < 10 \<Longrightarrow> layer2_acc a1 w2 b2 ! k = dot_from (word_of_int (sint (b2 ! k))) 32 a1 w2 k"
  by (simp add: layer2_acc_def matmul_loop_eq z2_bias_eq del: upt_Suc)

lemma layer2_acc_length: "length (layer2_acc a1 w2 b2) = 10"
  by (simp add: layer2_acc_def matmul_loop_eq z2_bias_eq del: upt_Suc)

lemma layer1_act_nth: "i < 32 \<Longrightarrow> layer1_act z1 ! i = relu_requant (z1 ! i)"
  by (simp add: layer1_act_eq del: upt_Suc)

section \<open>Claims about the inference engine\<close>

lemma item_zeros: "j < r \<Longrightarrow> i < c \<Longrightarrow> item (zeros_matrix r c) j i = 0"
proof -
  assume j: "j < r" and i: "i < c"
  have "j * c + i < Suc j * c" using i by simp
  also have "\<dots> \<le> r * c" using j by (intro mult_le_mono1) simp
  finally show ?thesis by (simp add: item_def zeros_matrix_def)
qed

lemma mac_zero: "mac a x 0 = a"
  by (simp add: mac_def)

lemma dot_from_zeros: "n \<le> r \<Longrightarrow> i < c \<Longrightarrow> dot_from a n x (zeros_matrix r c) i = a"
  by (induction n) (simp_all add: dot_from_0 dot_from_Suc item_zeros mac_zero)

lemma layer1_acc_zeros:
  "layer1_acc img (zeros_matrix 784 32) b1 = map (\<lambda>i. seed_bias_hw (b1 ! i)) [0..<32]"
  by (rule nth_equalityI)
     (simp_all add: layer1_acc_length layer1_acc_nth dot_from_zeros del: upt_Suc)

lemma seed_hw_1: "seed_bias_hw 1 = 256"
  by (simp add: seed_bias_hw_def)

lemma seed_hw_0: "seed_bias_hw 0 = 0"
  by (simp add: seed_bias_hw_def)

lemma relu_256: "relu_requant 256 = 1"
  by (simp add: relu_requant_def word_sless_alt)

lemma relu_0: "relu_requant 0 = 0"
  by (simp add: relu_requant_def word_sless_alt)

lemma map_one_hot:
  assumes "f 0 = a" and "\<And>i. 0 < i \<Longrightarrow> i < Suc n \<Longrightarrow> f i = b"
  shows "map f [0..<Suc n] = a # replicate n b"
proof (rule nth_equalityI)
  show "length (map f [0..<Suc n]) = length (a # replicate n b)" by simp
next
  fix i assume "i < length (map f [0..<Suc n])"
  then have i: "i < Suc n" by simp
  show "map f [0..<Suc n] ! i = (a # replicate n b) ! i"
  proof (cases i)
    case 0
    then show ?thesis using assms(1) by (simp add: upt_conv_Cons del: upt_Suc)
  next
    case (Suc i')
    then have "map f [0..<Suc n] ! i = f i" using i by (simp del: upt_Suc)
    then show ?thesis using assms(2) [of i] i Suc by simp
  qed
qed

text \<open>
  Claim C1. With an all-zero layer-1 weight matrix and the bias vector \<open>[1, 0, ..., 0]\<close>,
  for every image of 784 pixels the layer-1 accumulators are \<open>[256, 0, ..., 0]\<close> before
  the shift (neuron 0 holds exactly 256) and the activations are \<open>[1, 0, ..., 0]\<close>.
\<close>

theorem zero_weights_scenario:
  assumes "length img = 784"
  shows "layer1_acc img (zeros_matrix 784 32) (1 # replicate 31 0) = 256 # replicate 31 0
       \<and> sint (layer1_acc img (zeros_matrix 784 32) (1 # replicate 31 0) ! 0) = 256
       \<and> layer1_act (layer1_acc img (zeros_matrix 784 32) (1 # replicate 31 0))
           = 1 # replicate 31 0"
proof -
  have "map (\<lambda>i. seed_bias_hw ((1 # replicate 31 0) ! i)) [0..<Suc 31] = 256 # replicate 31 0"
    by (rule map_one_hot) (auto simp: seed_hw_1 seed_hw_0 nth_Cons')
  then have z: "layer1_acc img (zeros_matrix 784 32) (1 # replicate 31 0) = 256 # replicate 31 0"
    by (simp add: layer1_acc_zeros del: upt_Suc replicate_Suc)
  have "map (\<lambda>i. relu_requant ((256 # replicate 31 0) ! i)) [0..<Suc 31] = 1 # replicate 31 0"
    by (rule map_one_hot) (auto simp: relu_256 relu_0 nth_Cons')
  then have a: "layer1_act (256 # replicate 31 0) = 1 # replicate 31 0"
    by (simp add: layer1_act_eq del: upt_Suc replicate_Suc)
  show ?thesis unfolding z a by simp
qed

theorem zero_weights_scenario_witness:
  "length (replicate 784 (5::int8)) = 784
   \<and> layer1_acc (replicate 784 5) (zeros_matrix 784 32) (1 # replicate 31 0) = 256 # replicate 31 0
   \<and> sint (layer1_acc (replicate 784 5) (zeros_matrix 784 32) (1 # replicate 31 0) ! 0) = 256
   \<and> layer1_act (layer1_acc (replicate 784 5) (zeros_matrix 784 32) (1 # replicate 31 0))
       = 1 # replicate 31 0"
proof -
  have h: "length (replicate 784 (5::int8)) = 784" by (rule length_replicate)
  from zero_weights_scenario [OF h] h show ?thesis by (intro conjI) (elim conjE, assumption)+
qed

text \<open>
  Claim C5. The layer-1 activation of a signed 32-bit accumulator \<open>z\<close> is 0 when
  \<open>z < 0\<close>, 127 when \<open>z > 32767\<close>, and otherwise \<open>z\<close> shifted right
  arithmetically by 8 bits, that is \<open>z div 256\<close> rounded towards minus infinity, saturated to
  \<open>[-128, 127]\<close>; in that last case the saturation changes nothing.
\<close>

theorem relu_requant_rule:
  "sint (relu_requant z) =
     (if sint z < 0 then 0
      else if 32767 < sint z then 127
      else max (- 128) (min 127 (sint z div 256)))
   \<and> (0 \<le> sint z \<and> sint z \<le> 32767 \<longrightarrow> sint (relu_requant z) = sint z div 256)"
proof -
  consider "sint z < 0" | "32767 < sint z" | "0 \<le> sint z" "sint z \<le> 32767" by linarith
  then show ?thesis
  proof cases
    case 3
    then have "0 \<le> sint z div 256" "sint z div 256 \<le> 127" by (rule div256_range)+
    with 3 show ?thesis by (simp add: relu_mid)
  qed (simp_all add: relu_neg relu_high)
qed

theorem relu_requant_rule_witness:
  "sint (relu_requant 1000) = 3 \<and> sint (relu_requant (- 5)) = 0
   \<and> sint (relu_requant 40000) = 127"
  using relu_requant_rule [of 1000] relu_requant_rule [of "- 5"] relu_requant_rule [of 40000]
  by simp

text \<open>
  Claim C2, as stated, fails: at the bias value 1 the quantised test path seeds the
  accumulator with 127 and the hardware-emulation path with 256.
\<close>

theorem bias_scale_differs:
  "sint (seed_bias_test 1) = 127 \<and> sint (seed_bias_hw 1) = 256
   \<and> seed_bias_test 1 \<noteq> seed_bias_hw 1"
proof -
  have v: "sint (seed_bias_test 1) = 127" "sint (seed_bias_hw 1) = 256"
    by (simp_all add: sint_seed_test sint_seed_hw)
  then have "seed_bias_test 1 \<noteq> seed_bias_hw 1" by auto
  with v show ?thesis by simp
qed

text \<open>
  Claim C2, amended. The quantised test path multiplies every bias by 127 and the
  hardware-emulation path multiplies it by 256, each uniformly over the bias vector; the
  two seeds agree only for a zero bias.
\<close>

theorem bias_scale_constants:
  "bias_term_test b1 = map seed_bias_test b1
   \<and> z1_bias b1 = map (\<lambda>i. seed_bias_hw (b1 ! i)) [0..<32]
   \<and> sint (seed_bias_test b) = 127 * sint b \<and> sint (seed_bias_hw b) = 256 * sint b
   \<and> (seed_bias_test b = seed_bias_hw b \<longleftrightarrow> b = 0)"
proof -
  note v = bias_term_test_def [of b1] z1_bias_eq [of b1]
  have "seed_bias_test b = seed_bias_hw b \<longleftrightarrow> sint (seed_bias_test b) = sint (seed_bias_hw b)"
    by (rule word_eq_iff_signed [where ?'a = int])
  also have "\<dots> \<longleftrightarrow> sint b = 0" by (simp add: sint_seed_test sint_seed_hw)
  also have "\<dots> \<longleftrightarrow> b = 0" using word_eq_iff_signed [where ?'a = int, of b 0] by simp
  finally show ?thesis using v by (simp add: sint_seed_test sint_seed_hw del: upt_Suc)
qed

lemma layer1_exact:
  assumes "n \<le> 784"
  shows "sint (dot_from (seed_bias_hw b) n img w1 i)
           = 256 * sint b + (\<Sum>j<n. sint (img ! j) * sint (item w1 j i))
       \<and> \<bar>256 * sint b + (\<Sum>j<n. sint (img ! j) * sint (item w1 j i))\<bar> \<le> 128 * 256 + 784 * 128 * 128"
proof -
  have a: "\<bar>sint (seed_bias_hw b)\<bar> \<le> 32768"
    using sint8_bounds [of b] by (simp add: sint_seed_hw abs_le_iff)
  have le: "32768 + int n * 16384 \<le> 2147483647" using assms by simp
  have "sint (dot_from (seed_bias_hw b) n img w1 i)
          = sint (seed_bias_hw b) + (\<Sum>j<n. sint (img ! j) * sint (item w1 j i))
      \<and> \<bar>sint (seed_bias_hw b) + (\<Sum>j<n. sint (img ! j) * sint (item w1 j i))\<bar>
          \<le> 32768 + int n * 16384"
    by (rule dot_from_exact [OF a _ le]) (rule prod8_bound)
  moreover have "32768 + int n * 16384 \<le> 128 * 256 + 784 * 128 * 128" using assms by simp
  ultimately show ?thesis by (simp add: sint_seed_hw)
qed

lemma sint_bias2: "sint (word_of_int (sint (b::int8)) :: int32) = sint b"
  using sint8_bounds [of b] by (intro sint32_of_int) auto

lemma layer2_exact:
  assumes "m \<le> 32" and "\<And>j. j < m \<Longrightarrow> 0 \<le> sint (a1 ! j)"
  shows "sint (dot_from (word_of_int (sint (b::int8))) m a1 w2 k)
           = sint b + (\<Sum>j<m. sint (a1 ! j) * sint (item w2 j k))
       \<and> \<bar>sint b + (\<Sum>j<m. sint (a1 ! j) * sint (item w2 j k))\<bar> \<le> 128 + 32 * 127 * 128"
proof -
  let ?a = "word_of_int (sint b) :: int32"
  have a: "\<bar>sint ?a\<bar> \<le> 128"
    using sint8_bounds [of b] by (simp only: sint_bias2) (simp add: abs_le_iff)
  have le: "128 + int m * 16256 \<le> 2147483647" using assms(1) by simp
  have "sint (dot_from ?a m a1 w2 k) = sint ?a + (\<Sum>j<m. sint (a1 ! j) * sint (item w2 j k))
      \<and> \<bar>sint ?a + (\<Sum>j<m. sint (a1 ! j) * sint (item w2 j k))\<bar> \<le> 128 + int m * 16256"
    by (rule dot_from_exact [OF a _ le]) (rule prod_act_bound, rule assms(2))
  moreover have "128 + int m * 16256 \<le> 128 + 32 * 127 * 128" using assms(1) by simp
  ultimately show ?thesis by (simp only: sint_bias2) simp
qed

lemma layer1_act_nonneg: "j < 32 \<Longrightarrow> 0 \<le> sint (layer1_act z1 ! j)"
  using relu_range [of "z1 ! j"] by (simp add: layer1_act_nth)

text \<open>
  Claim C9. The 32-bit accumulators never overflow. Whatever the \<^verbatim>\<open>int8\<close> image,
  weights and biases, after any number \<open>n \<le> 784\<close> of steps of the inner loop the
  layer-1 accumulator of neuron \<open>i\<close>, read as a signed word, is the exact integer
  \<open>256 * b1[i] + (\<Sum>j<n. img[j] * w1[j, i])\<close>, of magnitude at most
  \<open>128 * 256 + 784 * 128 * 128\<close>; after any \<open>m \<le> 32\<close> steps the layer-2 accumulator
  of class \<open>k\<close> is the exact integer \<open>b2[k] + (\<Sum>j<m. a1[j] * w2[j, k])\<close>, of
  magnitude at most \<open>128 + 32 * 127 * 128\<close>; both bounds are below \<open>2 ^ 31\<close>.
\<close>

theorem accumulators_never_overflow:
  assumes "i < 32" and "n \<le> 784" and "k < 10" and "m \<le> 32"
  shows "sint (dot_from (seed_bias_hw (b1 ! i)) n img w1 i)
           = 256 * sint (b1 ! i) + (\<Sum>j<n. sint (img ! j) * sint (item w1 j i))
       \<and> \<bar>256 * sint (b1 ! i) + (\<Sum>j<n. sint (img ! j) * sint (item w1 j i))\<bar>
           \<le> 128 * 256 + 784 * 128 * 128
       \<and> layer1_acc img w1 b1 ! i = dot_from (seed_bias_hw (b1 ! i)) 784 img w1 i
       \<and> sint (dot_from (word_of_int (sint (b2 ! k))) m (layer1_act (layer1_acc img w1 b1)) w2 k)
           = sint (b2 ! k)
             + (\<Sum>j<m. sint (layer1_act (layer1_acc img w1 b1) ! j) * sint (item w2 j k))
       \<and> \<bar>sint (b2 ! k)
             + (\<Sum>j<m. sint (layer1_act (layer1_acc img w1 b1) ! j) * sint (item w2 j k))\<bar>
           \<le> 128 + 32 * 127 * 128
       \<and> layer2_acc (layer1_act (layer1_acc img w1 b1)) w2 b2 ! k
           = dot_from (word_of_int (sint (b2 ! k))) 32 (layer1_act (layer1_acc img w1 b1)) w2 k
       \<and> (128 * 256 + 784 * 128 * 128 :: int) < 2 ^ 31
       \<and> (128 + 32 * 127 * 128 :: int) < 2 ^ 31"
proof -
  have nn: "\<And>j. j < m \<Longrightarrow> 0 \<le> sint (layer1_act (layer1_acc img w1 b1) ! j)"
    using assms(4) by (intro layer1_act_nonneg) simp
  note l1 = layer1_exact [OF assms(2), of "b1 ! i" img w1 i]
  note l2 = layer2_exact [OF assms(4) nn, of "b2 ! k" w2 k]
  show ?thesis
    using l1 l2 layer1_acc_nth [OF assms(1), of img w1 b1]
      layer2_acc_nth [OF assms(3), of "layer1_act (layer1_acc img w1 b1)" w2 b2]
    by (intro conjI) simp_all
qed

theorem accumulators_never_overflow_witness:
  "(0::nat) < 32 \<and> (784::nat) \<le> 784 \<and> (0::nat) < 10 \<and> (32::nat) \<le> 32
   \<and> sint (dot_from (seed_bias_hw ((replicate 32 (127::int8)) ! 0)) 784 (replicate 784 (127::int8)) (zeros_matrix 784 32) 0)
           = 256 * sint ((replicate 32 (127::int8)) ! 0) + (\<Sum>j<784. sint ((replicate 784 (127::int8)) ! j) * sint (item (zeros_matrix 784 32) j 0))
       \<and> \<bar>256 * sint ((replicate 32 (127::int8)) ! 0) + (\<Sum>j<784. sint ((replicate 784 (127::int8)) ! j) * sint (item (zeros_matrix 784 32) j 0))\<bar>
           \<le> 128 * 256 + 784 * 128 * 128
       \<and> layer1_acc (replicate 784 (127::int8)) (zeros_matrix 784 32) (replicate 32 (127::int8)) ! 0 = dot_from (seed_bias_hw ((replicate 32 (127::int8)) ! 0)) 784 (replicate 784 (127::int8)) (zeros_matrix 784 32) 0
       \<and> sint (dot_from (word_of_int (sint ((replicate 10 (- 128 :: int8)) ! 0))) 32 (layer1_act (layer1_acc (replicate 784 (127::int8)) (zeros_matrix 784 32) (replicate 32 (127::int8)))) (zeros_matrix 32 10) 0)
           = sint ((replicate 10 (- 128 :: int8)) ! 0)
             + (\<Sum>j<32. sint (layer1_act (layer1_acc (replicate 784 (127::int8)) (zeros_matrix 784 32) (replicate 32 (127::int8))) ! j) * sint (item (zeros_matrix 32 10) j 0))
       \<and> \<bar>sint ((replicate 10 (- 128 :: int8)) ! 0)
             + (\<Sum>j<32. sint (layer1_act (layer1_acc (replicate 784 (127::int8)) (zeros_matrix 784 32) (replicate 32 (127::int8))) ! j) * sint (item (zeros_matrix 32 10) j 0))\<bar>
           \<le> 128 + 32 * 127 * 128
       \<and> layer2_acc (layer1_act (layer1_acc (replicate 784 (127::int8)) (zeros_matrix 784 32) (replicate 32 (127::int8)))) (zeros_matrix 32 10) (replicate 10 (- 128 :: int8)) ! 0
           = dot_from (word_of_int (sint ((replicate 10 (- 128 :: int8)) ! 0))) 32 (layer1_act (layer1_acc (replicate 784 (127::int8)) (zeros_matrix 784 32) (replicate 32 (127::int8)))) (zeros_matrix 32 10) 0
       \<and> (128 * 256 + 784 * 128 * 128 :: int) < 2 ^ 31
       \<and> (128 + 32 * 127 * 128 :: int) < 2 ^ 31"
proof -
  have h: "(0::nat) < 32" "(784::nat) \<le> 784" "(0::nat) < 10" "(32::nat) \<le> 32" by simp_all
  note t = accumulators_never_overflow
    [OF h, where ?b1.0 = "replicate 32 127" and ?img = "replicate 784 127"
      and ?w1.0 = "zeros_matrix 784 32" and ?b2.0 = "replicate 10 (- 128)"
      and ?w2.0 = "zeros_matrix 32 10"]
  show ?thesis
    by (rule conjI [OF h(1) conjI [OF h(2) conjI [OF h(3) conjI [OF h(4) t]]]])
qed

section \<open>Bytes and signed values\<close>

lemma cast_int8_256: "cast_int8 (b - 256) = cast_int8 b"
  by (simp add: cast_int8_def)

lemma cast_to_signed: "cast_int8 (to_signed b) = cast_int8 b"
  by (simp add: to_signed_def cast_int8_256)

lemma sint_cast_byte:
  assumes "0 \<le> b" and "b \<le> 255"
  shows "sint (cast_int8 b) = to_signed b"
proof (cases "b > 127")
  case True
  have "sint (cast_int8 (b - 256)) = b - 256"
    unfolding cast_int8_def using True assms by (intro sint8_of_int) auto
  then show ?thesis using True by (simp add: cast_int8_256 to_signed_def)
next
  case False
  have "sint (cast_int8 b) = b"
    unfolding cast_int8_def using False assms by (intro sint8_of_int) auto
  then show ?thesis using False by (simp add: to_signed_def)
qed

text \<open>
  Claim C10. The two ways of turning a byte \<open>b\<close> between 0 and 255 into an
  \<^verbatim>\<open>int8\<close> agree: the cast of the image loader (\<^verbatim>\<open>astype(np.int8)\<close>, which wraps
  modulo 256) and the sign adjustment of the weight loader (\<open>b - 256\<close> when
  \<open>b > 127\<close>, then the same cast) give the same signed value.
\<close>

theorem decoding_paths_agree:
  assumes "0 \<le> b" and "b \<le> 255"
  shows "cast_int8 b = cast_int8 (to_signed b) \<and> sint (cast_int8 b) = to_signed b
       \<and> sint (cast_int8 (to_signed b)) = to_signed b"
  using assms by (simp add: cast_to_signed sint_cast_byte)

theorem decoding_paths_agree_witness:
  "(0::int) \<le> 200 \<and> (200::int) \<le> 255 \<and> cast_int8 200 = cast_int8 (to_signed 200)
   \<and> sint (cast_int8 200) = - 56 \<and> to_signed 200 = - 56"
  using decoding_paths_agree [of 200] by (simp add: to_signed_def)

lemma uint8_bounds: "0 \<le> uint (w::int8) \<and> uint w \<le> 255"
  using uint_lt2p [of w] by simp

lemma to_signed_uint: "to_signed (uint (w::int8)) = sint w"
proof -
  have "sint (cast_int8 (uint w)) = to_signed (uint w)"
    using uint8_bounds [of w] by (intro sint_cast_byte) auto
  then show ?thesis by (simp add: cast_int8_def)
qed

lemma sint_and_255: "sint (w::int8) AND 255 = uint w"
proof -
  have "sint w AND 255 = take_bit 8 (sint w)"
    by (simp add: take_bit_eq_mask mask_eq_exp_minus_1)
  also have "\<dots> = uint w"
    by transfer (simp add: take_bit_signed_take_bit)
  finally show ?thesis .
qed

section \<open>Writing a hex file and reading it back\<close>

lemma hex_char_table:
  "list_all (\<lambda>d. hex_digit_value (hex_char d) = Some d \<and> \<not> is_space (hex_char d)
       \<and> hex_char d \<noteq> CHR ''-'' \<and> hex_char d \<noteq> CHR ''+'' \<and> hex_char d \<noteq> CHR ''x''
       \<and> hex_char d \<noteq> CHR ''X'' \<and> hex_char d \<noteq> CHR ''_'' \<and> hex_char d \<noteq> LF
       \<and> hex_char d \<noteq> CR) [0..<16]"
  by code_simp

lemma hex_char_props:
  assumes "d < 16"
  shows "hex_digit_value (hex_char d) = Some d" and "\<not> is_space (hex_char d)"
    and "hex_char d \<noteq> CHR ''-''" and "hex_char d \<noteq> CHR ''+''" and "hex_char d \<noteq> CHR ''x''"
    and "hex_char d \<noteq> CHR ''X''" and "hex_char d \<noteq> CHR ''_''" and "hex_char d \<noteq> LF"
    and "hex_char d \<noteq> CR"
  using hex_char_table assms by (simp_all add: list_all_iff)

lemma is_space_LF: "is_space LF"
  by (simp add: is_space_def LF_def)

lemma strip_two:
  "\<not> is_space c \<Longrightarrow> \<not> is_space d \<Longrightarrow> strip [c, d, LF] = [c, d] \<and> strip [c, d] = [c, d]"
  by (simp add: strip_def is_space_LF)

lemma py_int16_two:
  assumes "a < 16" and "b < 16"
  shows "py_int16 [hex_char a, hex_char b] = Some (int (16 * a + b))"
  using hex_char_props [OF assms(1)] hex_char_props [OF assms(2)]
  by (simp add: py_int16_def strip_two)

lemma encode_byte_eq:
  "encode_byte w = [hex_char (unat w div 16), hex_char (unat w mod 16), LF]"
proof -
  have "nat (uint w div 16) = unat w div 16" "nat (uint w mod 16) = unat w mod 16"
    by (simp_all add: nat_div_distrib nat_mod_distrib)
  then show ?thesis by (simp add: encode_byte_def format_02x_def sint_and_255)
qed

lemma unat8_digits: "unat (w::int8) div 16 < 16" "unat w mod 16 < 16"
  using unsigned_less [of w, where ?'a = nat] by simp_all

lemma decode_encoded_line: "py_int16 (strip (encode_byte w)) = Some (uint w)"
proof -
  let ?a = "unat w div 16" and ?b = "unat w mod 16"
  have s: "strip (encode_byte w) = [hex_char ?a, hex_char ?b]"
    unfolding encode_byte_eq
    using hex_char_props(2) [OF unat8_digits(1) [of w]] hex_char_props(2) [OF unat8_digits(2) [of w]]
    by (simp add: strip_two)
  have "int (16 * ?a + ?b) = uint w" by simp
  then show ?thesis
    unfolding s using py_int16_two [OF unat8_digits [of w]] by simp
qed

lemma universal_newlines_id: "CR \<notin> set s \<Longrightarrow> universal_newlines s = s"
  by (induction s rule: universal_newlines.induct) auto

lemma split_lines_line:
  "LF \<notin> set l \<Longrightarrow> split_lines cur (l @ LF # rest) = (cur @ l @ [LF]) # split_lines [] rest"
  by (induction l arbitrary: cur) auto

lemma encode_byte_chars: "CR \<notin> set (encode_byte w)"
  unfolding encode_byte_eq
  using hex_char_props(9) [OF unat8_digits(1) [of w]] hex_char_props(9) [OF unat8_digits(2) [of w]]
  by (auto simp: LF_def CR_def)

lemma split_encoded:
  "split_lines [] (concat (map encode_byte ws)) = map encode_byte ws"
proof (induction ws)
  case Nil
  then show ?case by simp
next
  case (Cons w ws)
  let ?l = "[hex_char (unat w div 16), hex_char (unat w mod 16)]"
  have nl: "LF \<notin> set ?l"
    using hex_char_props(8) [OF unat8_digits(1) [of w]] hex_char_props(8) [OF unat8_digits(2) [of w]]
    by auto
  have e: "encode_byte w = ?l @ [LF]" by (simp add: encode_byte_eq)
  have "split_lines [] (concat (map encode_byte (w # ws)))
      = split_lines [] (?l @ LF # concat (map encode_byte ws))"
    by (simp add: e)
  also have "\<dots> = ([] @ ?l @ [LF]) # split_lines [] (concat (map encode_byte ws))"
    using nl by (rule split_lines_line)
  also have "\<dots> = encode_byte w # map encode_byte ws"
    by (simp only: Cons.IH e append_Nil)
  finally show ?case by simp
qed

lemma readlines_encoded: "readlines (concat (map encode_byte ws)) = map encode_byte ws"
proof -
  have "CR \<notin> set (concat (map encode_byte ws))"
    by (auto simp: encode_byte_chars)
  then show ?thesis by (simp add: readlines_def universal_newlines_id split_encoded)
qed

lemma export_vector_eq: "export_vector b = concat (map encode_byte b)"
proof -
  have "map (\<lambda>i. encode_byte (b ! i)) [0..<length b] = map encode_byte (map ((!) b) [0..<length b])"
    by simp
  then show ?thesis unfolding export_vector_def by (simp only: map_nth)
qed

lemma decode_encoded: "decode_lines (map encode_byte ws) = Inr (map sint ws)"
  by (induction ws) (simp_all add: decode_encoded_line to_signed_uint)

lemma parse_encoded: "parse_lines (map encode_byte ws) = Inr (map uint ws)"
  by (induction ws) (simp_all add: decode_encoded_line)

lemma fits_int64_sint: "fits_int64 (sint (w::int8))"
  using sint8_bounds [of w] by (simp add: fits_int64_def)

lemma astype_sint: "astype_int8 (map sint ws) = Inr ws"
proof -
  have "list_all fits_int64 (map sint ws)" by (simp add: list_all_iff fits_int64_sint)
  moreover have "map cast_int8 (map sint ws) = ws"
    by (induction ws) (simp_all add: cast_int8_def)
  ultimately show ?thesis by (simp add: astype_int8_def)
qed

lemma load_vector_export: "load_vector (export_vector T) = Inr T"
  by (simp add: load_vector_def export_vector_eq readlines_encoded decode_encoded astype_sint)

lemma take_drop_nth:
  "n + c \<le> length xs \<Longrightarrow> take c (drop n xs) = map (\<lambda>j. xs ! (n + j)) [0..<c]"
  by (rule nth_equalityI) simp_all

lemma rows_concat:
  "r * c \<le> length xs \<Longrightarrow>
   concat (map (\<lambda>i. map (\<lambda>j. xs ! (i * c + j)) [0..<c]) [0..<r]) = take (r * c) xs"
proof (induction r)
  case 0
  then show ?case by simp
next
  case (Suc r)
  have le: "r * c + c \<le> length xs" using Suc.prems by (simp add: add.commute)
  have "Suc r * c = r * c + c" by simp
  then have "take (Suc r * c) xs = take (r * c) xs @ take c (drop (r * c) xs)"
    by (simp only: take_add)
  also have "\<dots> = take (r * c) xs @ map (\<lambda>j. xs ! (r * c + j)) [0..<c]"
    by (simp only: take_drop_nth [OF le])
  finally show ?case using Suc.IH le by simp
qed

lemma concat_rows:
  "concat (map (\<lambda>i. concat (map (\<lambda>j. e (g i j)) js)) is)
   = concat (map e (concat (map (\<lambda>i. map (g i) js) is)))"
  by (induction "is") (simp_all add: comp_def)

lemma export_matrix_eq:
  assumes "length (elems w) = nrows w * ncols w"
  shows "export_matrix w = export_vector (elems w)"
proof -
  have "concat (map (\<lambda>i. map (\<lambda>j. elems w ! (i * ncols w + j)) [0..<ncols w]) [0..<nrows w])
      = take (nrows w * ncols w) (elems w)"
    using assms by (intro rows_concat) simp
  then have "concat (map (\<lambda>i. map (item w i) [0..<ncols w]) [0..<nrows w]) = elems w"
    using assms by (simp add: item_def [abs_def])
  then show ?thesis
    unfolding export_matrix_def export_vector_eq concat_rows by simp
qed

lemma load_matrix_export:
  assumes "length (elems w) = nrows w * ncols w"
  shows "load_matrix (nrows w) (ncols w) (export_matrix w) = Inr w"
  using assms
  by (simp add: load_matrix_def reshape_astype_def export_matrix_eq export_vector_eq
      readlines_encoded decode_encoded astype_sint)

text \<open>
  Claim C4. Writing a sequence of \<^verbatim>\<open>int8\<close> values as a hex file and reading the file
  back gives the sequence: every value is written as the two lower-case hexadecimal digits
  of \<^verbatim>\<open>v & 0xFF\<close> on a line of its own, every line is read back as that unsigned
  value, and the values above 127 are lowered by 256. The same holds for a matrix written
  row by row and read back with its own shape.
\<close>

theorem hex_round_trip:
  "load_vector (export_vector T) = Inr T
   \<and> readlines (export_vector T) = map encode_byte T
   \<and> decode_lines (readlines (export_vector T)) = Inr (map sint T)
   \<and> (length (elems w) = nrows w * ncols w \<longrightarrow>
        load_matrix (nrows w) (ncols w) (export_matrix w) = Inr w)"
proof -
  have r: "readlines (export_vector T) = map encode_byte T"
    by (simp only: export_vector_eq readlines_encoded)
  show ?thesis
    by (simp add: r load_vector_export load_matrix_export decode_encoded)
qed

theorem hex_round_trip_witness:
  "load_vector (export_vector [0, 127, - 128, - 1]) = Inr [0, 127, - 128, - 1]
   \<and> export_vector [0, 127, - 128, - 1] = ''00'' @ [LF] @ ''7f'' @ [LF] @ ''80'' @ [LF] @ ''ff'' @ [LF]
   \<and> load_matrix 1 2 (export_matrix \<lparr>nrows = 1, ncols = 2, elems = [5, - 3]\<rparr>)
       = Inr \<lparr>nrows = 1, ncols = 2, elems = [5, - 3]\<rparr>"
proof -
  have e: "export_vector [0, 127, - 128, - 1]
      = ''00'' @ [LF] @ ''7f'' @ [LF] @ ''80'' @ [LF] @ ''ff'' @ [LF]"
    by code_simp
  show ?thesis
    using hex_round_trip [of "[0, 127, - 128, - 1]" "\<lparr>nrows = 1, ncols = 2, elems = [5, - 3]\<rparr>"] e
    by simp
qed

section \<open>Malformed lines and wrong element counts\<close>












text \<open>
  Claim C7, as stated, fails for bias vectors: a bias file of one line is read without any
  error, as a vector of one element, where 32 (or 10) elements are expected.
\<close>

theorem short_bias_file_accepted:
  "load_vector (''01'' @ [LF]) = Inr [1]
   \<and> load_weights \<lparr>w1_hex = export_matrix (zeros_matrix 784 32),
          b1_hex = ''01'' @ [LF], w2_hex = export_matrix (zeros_matrix 32 10),
          b2_hex = []\<rparr> = Inr (zeros_matrix 784 32, [1], zeros_matrix 32 10, [])"
proof -
  have v: "load_vector (''01'' @ [LF]) = Inr [1]" by code_simp
  have e: "load_vector [] = Inr []" by code_simp
  have m1: "load_matrix 784 32 (export_matrix (zeros_matrix 784 32)) = Inr (zeros_matrix 784 32)"
    using load_matrix_export [of "zeros_matrix 784 32"] by (simp add: zeros_matrix_def)
  have m2: "load_matrix 32 10 (export_matrix (zeros_matrix 32 10)) = Inr (zeros_matrix 32 10)"
    using load_matrix_export [of "zeros_matrix 32 10"] by (simp add: zeros_matrix_def)
  show ?thesis
    by (simp only: load_weights_def hex_files.simps v e m1 m2 sum.case simp_thms)
qed

text \<open>
  Claim C7, amended. When the lines of a file decode to a list of values: for a weight
  matrix (and for the image batch) a number of values other than rows times columns makes
  \<^verbatim>\<open>reshape\<close> raise \<^verbatim>\<open>ValueError\<close>, so that no tensor is produced, also by
  \<^verbatim>\<open>load_weights\<close> for its first file; for a bias vector the number of values is not
  checked, and the vector has as many elements as the file has lines.
\<close>

theorem count_mismatch:
  assumes "decode_lines (readlines text) = Inr vs"
  shows "(length vs \<noteq> r * c \<longrightarrow> load_matrix r c text = Inl ValueError_cannot_reshape)
       \<and> (w1_hex fs = text \<and> length vs \<noteq> 784 * 32 \<longrightarrow>
            load_weights fs = Inl ValueError_cannot_reshape)
       \<and> (parse_lines (readlines text) = Inr us \<and> length us \<noteq> 20 * 784 \<longrightarrow>
            load_test_imgs text = Inl ValueError_cannot_reshape)
       \<and> (list_all fits_int64 vs \<longrightarrow> load_vector text = Inr (map cast_int8 vs))"
  using assms
  by (auto simp: load_matrix_def load_weights_def load_test_imgs_def load_vector_def
      reshape_astype_def astype_int8_def)

theorem count_mismatch_witness:
  "load_matrix 2 2 (''01'' @ [LF] @ ''02'' @ [LF] @ ''ff'' @ [LF]) = Inl ValueError_cannot_reshape
   \<and> load_weights \<lparr>w1_hex = ''01'' @ [LF] @ ''02'' @ [LF] @ ''ff'' @ [LF], b1_hex = [],
        w2_hex = [], b2_hex = []\<rparr> = Inl ValueError_cannot_reshape
   \<and> load_test_imgs (''01'' @ [LF] @ ''02'' @ [LF] @ ''ff'' @ [LF]) = Inl ValueError_cannot_reshape
   \<and> load_vector (''01'' @ [LF] @ ''02'' @ [LF] @ ''ff'' @ [LF]) = Inr [1, 2, - 1]"
proof -
  let ?t = "''01'' @ [LF] @ ''02'' @ [LF] @ ''ff'' @ [LF]"
  let ?fs = "\<lparr>w1_hex = ?t, b1_hex = [], w2_hex = [], b2_hex = []\<rparr>"
  have d: "decode_lines (readlines ?t) = Inr [1, 2, - 1]" by code_simp
  have p: "parse_lines (readlines ?t) = Inr [1, 2, 255]" by code_simp
  have f: "list_all fits_int64 [1, 2, - 1]" by code_simp
  have c: "map cast_int8 [1, 2, - 1] = [1, 2, - 1]" by (simp add: cast_int8_def)
  show ?thesis
    using count_mismatch [OF d, of 2 2 ?fs "[1, 2, 255]"] p f c by simp
qed

section \<open>Quantising a tensor of zeros\<close>

lemma fold_max_zeros: "\<forall>x\<in>set xs. x = (0::real) \<Longrightarrow> fold max xs 0 = 0"
  by (induction xs) simp_all

lemma np_max_zeros:
  assumes "ws \<noteq> []" and "\<forall>w\<in>set ws. w = (0::real)"
  shows "np_max (map abs ws) = Inr 0"
proof (cases ws)
  case Nil
  then show ?thesis using assms(1) by simp
next
  case (Cons w ws')
  then have "w = 0" "\<forall>x\<in>set (map abs ws'). x = 0" using assms(2) by auto
  then show ?thesis using Cons by (simp add: fold_max_zeros)
qed

lemma np_round_0: "np_round 0 = 0"
  by (simp add: np_round_def)

lemma round_zeros:
  "\<forall>w\<in>set ws. w = (0::real) \<Longrightarrow> map (\<lambda>w. np_round (w * s)) ws = replicate (length ws) 0"
  by (induction ws) (simp_all add: np_round_0)

lemma float_astype_zeros: "float_astype_int8 (replicate n 0) = Inr (replicate n 0)"
  by (simp add: float_astype_int8_def list_all_iff cast_int8_def)

text \<open>
  The tensors that \<^verbatim>\<open>quantize_model\<close> passes to the function are the kernels and biases
  of the two dense layers, of shapes 784 x 32, 32, 32 x 10 and 10: each has elements. That
  is the precondition of the theorem below; on an array without elements \<^verbatim>\<open>np.max\<close>
  raises before the branch on the maximum is reached.
\<close>

lemma quantize_needs_elements: "quantize_weights [] 127 = Inl ValueError_zero_size_array"
  by (simp add: quantize_weights_def)

text \<open>
  Claim C8. Quantising a tensor whose elements are all zero gives the scale 1 and a
  tensor of zeros of the same size, whatever the scale factor: the maximum of the absolute
  values is 0, which is not positive, so the branch \<^verbatim>\<open>scale = 1.0\<close> is taken and the
  division is not evaluated. The tensor has at least one element, as every tensor of the
  program has.
\<close>

theorem quantize_zero_tensor:
  assumes "ws \<noteq> []" and "\<forall>w\<in>set ws. w = 0"
  shows "quantize_weights ws scale_factor = Inr (replicate (length ws) 0, 1)"
  using assms
  by (simp add: quantize_weights_def np_max_zeros round_zeros float_astype_zeros)

theorem quantize_zero_tensor_witness:
  "quantize_weights [0, 0, 0] 127 = Inr ([0, 0, 0], 1)"
proof -
  have h: "[0, 0, 0] \<noteq> ([]::real list)" "\<forall>w\<in>set [0, 0, (0::real)]. w = 0" by simp_all
  show ?thesis using quantize_zero_tensor [OF h, of 127] by (simp add: numeral_3_eq_3)
qed

end
